theory Spec2Isabelle
  imports Main
begin

section \<open>The file-system collaborator\<close>

text \<open>
  \<^verbatim>\<open>main.py\<close> asks Qt five things about a path. They are the parameters of
  the model; a navigation reads them afresh on every call, so each operation takes the
  file system it runs against as an argument.
  \<^item> \<open>dir_exists p\<close> is \<^verbatim>\<open>QDir(p).exists()\<close>;
  \<^item> \<open>absolutePath p\<close> is \<^verbatim>\<open>QDir(p).absolutePath()\<close>;
  \<^item> \<open>index_isValid p\<close> is \<^verbatim>\<open>fs_model.index(p).isValid()\<close>;
  \<^item> \<open>isDir p\<close> is \<^verbatim>\<open>fs_model.isDir(i)\<close> for the model index \<open>i\<close> of \<open>p\<close>;
  \<^item> \<open>cdUp p\<close> is \<^verbatim>\<open>QDir(p).cdUp()\<close>: \<open>None\<close> when it answers false, otherwise
    the \<^verbatim>\<open>absolutePath()\<close> of the directory moved to;
  \<^item> \<open>homePath\<close> is \<^verbatim>\<open>QDir.homePath()\<close>.
\<close>

record file_system =
  dir_exists :: "string \<Rightarrow> bool"
  absolutePath :: "string \<Rightarrow> string"
  index_isValid :: "string \<Rightarrow> bool"
  isDir :: "string \<Rightarrow> bool"
  cdUp :: "string \<Rightarrow> string option"
  homePath :: string

section \<open>The window state\<close>

text \<open>
  The fields of \<^verbatim>\<open>MainWindow\<close> that navigation reads or writes. A model index is
  identified with the path it stands for: \<open>rootIndex\<close> is the root index of the file
  list view, \<open>None\<close> while it is the invalid index. \<open>status_bar\<close> is the message
  last given to \<^verbatim>\<open>showMessage\<close> with its duration in milliseconds.
\<close>

record window =
  history :: "string list"
  history_position :: int
  rootIndex :: "string option"
  address_bar :: string
  back_enabled :: bool
  forward_enabled :: bool
  status_bar :: "(string \<times> nat) option"

datatype error = IndexError

datatype outcome = Returned window | Raised error window

fun state_of :: "outcome \<Rightarrow> window" where
  "state_of (Returned w) = w"
| "state_of (Raised e w) = w"

text \<open>\<^verbatim>\<open>fs_model.filePath(index)\<close>: the empty string for the invalid index.\<close>

fun filePath :: "string option \<Rightarrow> string" where
  "filePath None = []"
| "filePath (Some p) = p"

text \<open>Python's \<^verbatim>\<open>xs[i]\<close> and \<^verbatim>\<open>xs[:k]\<close>, negative indices counting from the end.\<close>

definition py_index :: "'a list \<Rightarrow> int \<Rightarrow> 'a option" where
  "py_index xs i =
     (let n = int (length xs); j = (if i < 0 then n + i else i)
      in if 0 \<le> j \<and> j < n then Some (xs ! nat j) else None)"

definition py_slice_to :: "'a list \<Rightarrow> int \<Rightarrow> 'a list" where
  "py_slice_to xs k = (if k < 0 then take (nat (int (length xs) + k)) xs else take (nat k) xs)"

definition showMessage :: "string \<Rightarrow> nat \<Rightarrow> window \<Rightarrow> window" where
  "showMessage msg ms w = w\<lparr>status_bar := Some (msg, ms)\<rparr>"

definition update_history_buttons_state :: "window \<Rightarrow> window" where
  "update_history_buttons_state w =
     w\<lparr>back_enabled := (history_position w > 0),
       forward_enabled := (history_position w < int (length (history w)) - 1)\<rparr>"

text \<open>
  The address bar is set back to the path of the list view's root, unless the call
  comes from back or forward.
\<close>

definition revert_address_bar :: "bool \<Rightarrow> window \<Rightarrow> window" where
  "revert_address_bar is_history_navigation w =
     (if \<not> is_history_navigation then w\<lparr>address_bar := filePath (rootIndex w)\<rparr> else w)"

text \<open>Lines 140 to 149: truncate the future, append, move the position to the end.\<close>

definition record_visit :: "string \<Rightarrow> window \<Rightarrow> window" where
  "record_visit normalized_path w =
     (let h1 = (if history_position w < int (length (history w)) - 1
                then py_slice_to (history w) (history_position w + 1)
                else history w);
          h2 = (if h1 = [] then h1 @ [normalized_path]
                else if last h1 \<noteq> normalized_path then h1 @ [normalized_path]
                else h1)
      in w\<lparr>history := h2, history_position := int (length h2) - 1\<rparr>)"

definition change_directory :: "file_system \<Rightarrow> string \<Rightarrow> bool \<Rightarrow> window \<Rightarrow> window" where
  "change_directory fs path_string is_history_navigation w =
     (if \<not> dir_exists fs path_string then
        revert_address_bar is_history_navigation
          (showMessage (''Path does not exist: '' @ path_string) 5000 w)
      else
        let normalized_path = absolutePath fs path_string in
        if rootIndex w \<noteq> None \<and> filePath (rootIndex w) = normalized_path then
          (if \<not> is_history_navigation then update_history_buttons_state w else w)
        else if index_isValid fs normalized_path \<and> isDir fs normalized_path then
          let w1 = w\<lparr>rootIndex := Some normalized_path, address_bar := normalized_path\<rparr>;
              w2 = (if \<not> is_history_navigation then record_visit normalized_path w1 else w1)
          in update_history_buttons_state w2
        else if \<not> isDir fs normalized_path \<and> index_isValid fs normalized_path then
          revert_address_bar is_history_navigation
            (showMessage (''Not a directory: '' @ normalized_path) 3000 w)
        else
          revert_address_bar is_history_navigation
            (showMessage (''Cannot navigate to: '' @ normalized_path) 3000 w))"

text \<open>
  The two view handlers get the index of the entry acted on (Qt emits \<^verbatim>\<open>clicked\<close>
  and \<^verbatim>\<open>doubleClicked\<close> for valid indexes only), here the entry's path.
\<close>

definition on_list_view_double_clicked :: "file_system \<Rightarrow> string \<Rightarrow> window \<Rightarrow> window" where
  "on_list_view_double_clicked fs index w =
     (if isDir fs index then change_directory fs index False w else w)"

definition on_address_bar_return_pressed :: "file_system \<Rightarrow> window \<Rightarrow> window" where
  "on_address_bar_return_pressed fs w = change_directory fs (address_bar w) False w"

definition go_up :: "file_system \<Rightarrow> window \<Rightarrow> window" where
  "go_up fs w =
     (let current_path = filePath (rootIndex w) in
      case cdUp fs current_path of
        Some parent \<Rightarrow> change_directory fs parent False w
      | None \<Rightarrow> showMessage (''Cannot go up from: '' @ current_path) 3000 w)"

definition go_back :: "file_system \<Rightarrow> window \<Rightarrow> outcome" where
  "go_back fs w =
     (if history_position w > 0 then
        let w1 = w\<lparr>history_position := history_position w - 1\<rparr> in
        case py_index (history w1) (history_position w1) of
          None \<Rightarrow> Raised IndexError w1
        | Some path_to_go \<Rightarrow> Returned (change_directory fs path_to_go True w1)
      else Returned w)"

definition go_forward :: "file_system \<Rightarrow> window \<Rightarrow> outcome" where
  "go_forward fs w =
     (if history_position w < int (length (history w)) - 1 then
        let w1 = w\<lparr>history_position := history_position w + 1\<rparr> in
        case py_index (history w1) (history_position w1) of
          None \<Rightarrow> Raised IndexError w1
        | Some path_to_go \<Rightarrow> Returned (change_directory fs path_to_go True w1)
      else Returned w)"

definition on_tree_view_clicked :: "file_system \<Rightarrow> string \<Rightarrow> window \<Rightarrow> window" where
  "on_tree_view_clicked fs index w =
     (let path_string = index in
      if isDir fs index then change_directory fs path_string False w else w)"

text \<open>
  \<^verbatim>\<open>__init__\<close>: empty history, position \<open>-1\<close>, a list view with no root yet, an
  empty address bar, both actions enabled as a new \<^verbatim>\<open>QAction\<close> is; then the
  change to the home directory and the refresh of the buttons.
\<close>

definition fresh_window :: window where
  "fresh_window =
     \<lparr>history = [], history_position = - 1, rootIndex = None, address_bar = [],
      back_enabled = True, forward_enabled = True, status_bar = None\<rparr>"

definition MainWindow_init :: "file_system \<Rightarrow> window" where
  "MainWindow_init fs =
     update_history_buttons_state (change_directory fs (homePath fs) False fresh_window)"

section \<open>Navigation intents and sessions\<close>

text \<open>
  What the user can do. \<open>AddressReturn t\<close> is the address bar edited to \<open>t\<close> and
  Return pressed. A session is a list of intents, each with the file system as it is
  when the intent is handled; it stops at an exception.
\<close>

datatype intent =
    AddressReturn string
  | ListDoubleClick string
  | TreeClick string
  | Up
  | Back
  | Forward

fun handle :: "file_system \<Rightarrow> intent \<Rightarrow> window \<Rightarrow> outcome" where
  "handle fs (AddressReturn t) w = Returned (on_address_bar_return_pressed fs (w\<lparr>address_bar := t\<rparr>))"
| "handle fs (ListDoubleClick i) w = Returned (on_list_view_double_clicked fs i w)"
| "handle fs (TreeClick i) w = Returned (on_tree_view_clicked fs i w)"
| "handle fs Up w = Returned (go_up fs w)"
| "handle fs Back w = go_back fs w"
| "handle fs Forward w = go_forward fs w"

fun run :: "(file_system \<times> intent) list \<Rightarrow> window \<Rightarrow> outcome" where
  "run [] w = Returned w"
| "run ((fs, i) # rest) w =
     (case handle fs i w of
        Returned w' \<Rightarrow> run rest w'
      | Raised e w' \<Rightarrow> Raised e w')"

text \<open>The two predicates of the specification, read off a state.\<close>

definition buttons_ok :: "window \<Rightarrow> bool" where
  "buttons_ok w =
     (back_enabled w = (history_position w > 0) \<and>
      forward_enabled w = (history_position w < int (length (history w)) - 1))"

fun no_adjacent_duplicates :: "string list \<Rightarrow> bool" where
  "no_adjacent_duplicates (x # y # rest) = (x \<noteq> y \<and> no_adjacent_duplicates (y # rest))"
| "no_adjacent_duplicates _ = True"

section \<open>A concrete file system\<close>

text \<open>
  A file system given by the canonical absolute paths of its directories and of its
  regular files, answering as Qt documents: \<^verbatim>\<open>QDir::exists()\<close> is true for an
  existing directory only (it is false where a file of that name is found), the model
  has an index for every entry, and \<^verbatim>\<open>cdUp\<close> fails at the root.
\<close>

definition dirname :: "string \<Rightarrow> string" where
  "dirname p =
     (let q = butlast (rev (dropWhile (\<lambda>c. c \<noteq> CHR ''/'') (rev p)))
      in if q = [] then ''/'' else q)"

definition qt_fs :: "string \<Rightarrow> string list \<Rightarrow> string list \<Rightarrow> file_system" where
  "qt_fs home dirs files =
     \<lparr>dir_exists = (\<lambda>p. p \<in> set dirs),
      absolutePath = (\<lambda>p. p),
      index_isValid = (\<lambda>p. p \<in> set dirs \<or> p \<in> set files),
      isDir = (\<lambda>p. p \<in> set dirs),
      cdUp = (\<lambda>p. if p = ''/'' then None
                   else if dirname p \<in> set dirs then Some (dirname p) else None),
      homePath = home\<rparr>"

text \<open>
  The session used in the examples: the user's home \<^verbatim>\<open>/home/u\<close> with a
  subdirectory and a regular file, and \<^verbatim>\<open>/etc\<close>. The two variants are the same
  file system after a directory has been removed from outside the program.
\<close>

definition example_fs :: file_system where
  "example_fs =
     qt_fs ''/home/u'' [''/'', ''/home'', ''/home/u'', ''/home/u/docs'', ''/etc'']
       [''/home/u/notes.txt'']"

definition example_fs_home_removed :: file_system where
  "example_fs_home_removed =
     qt_fs ''/home/u'' [''/'', ''/home'', ''/etc''] []"

definition example_fs_docs_removed :: file_system where
  "example_fs_docs_removed =
     qt_fs ''/home/u'' [''/'', ''/home'', ''/home/u'', ''/etc''] [''/home/u/notes.txt'']"

text \<open>
  A session of two visits from the home directory and the state it ends in; a session
  with a missing path, a regular file, a visit and a step back; and the states used
  below: after a step back onto a removed directory, after one visit, after stepping
  back and forward again once the visited directory is gone, after the visits to
  \<^verbatim>\<open>/etc\<close> and \<^verbatim>\<open>/\<close>, after two steps back from there once the home directory
  is gone, and after the path of a regular file is typed.
\<close>

definition example_intents :: "intent list" where
  "example_intents = [AddressReturn ''/home/u/docs'', AddressReturn ''/etc'']"

definition example_session :: "(file_system \<times> intent) list" where
  "example_session = map (Pair example_fs) example_intents"

definition example_window :: window where
  "example_window =
     \<lparr>history = [''/home/u'', ''/home/u/docs'', ''/etc''], history_position = 2,
      rootIndex = Some ''/etc'', address_bar = ''/etc'',
      back_enabled = True, forward_enabled = False, status_bar = None\<rparr>"

definition failing_intents :: "intent list" where
  "failing_intents =
     [AddressReturn ''/no/such/path'', AddressReturn ''/home/u/notes.txt'',
      AddressReturn ''/etc'', Back]"

definition after_failed_back :: window where
  "after_failed_back =
     state_of (run [(example_fs, AddressReturn ''/etc''), (example_fs_home_removed, Back)]
                 (MainWindow_init example_fs))"



definition three_visits :: window where
  "three_visits =
     state_of (run [(example_fs, AddressReturn ''/etc''), (example_fs, AddressReturn ''/'')]
                 (MainWindow_init example_fs))"

definition after_two_backs :: window where
  "after_two_backs =
     state_of (go_back example_fs_home_removed
       (state_of (go_back example_fs_home_removed three_visits)))"

definition typed_file :: window where
  "typed_file =
     on_address_bar_return_pressed example_fs
       ((MainWindow_init example_fs)\<lparr>address_bar := ''/home/u/notes.txt''\<rparr>)"


section \<open>Invariants\<close>

text \<open>
  The position invariant of the history, and the invariant of a whole session: it adds
  that the buttons show what the position says, that every entry is still a directory
  the program would accept, in the form \<^verbatim>\<open>absolutePath\<close> gives it, and that the list
  view shows the entry the position points at.
\<close>

definition position_in_bounds :: "window \<Rightarrow> bool" where
  "position_in_bounds w =
     (if history w = [] then history_position w = - 1
      else 0 \<le> history_position w \<and> history_position w < int (length (history w)))"

definition history_inv :: "window \<Rightarrow> bool" where
  "history_inv w = (position_in_bounds w \<and> no_adjacent_duplicates (history w))"

definition navigable :: "file_system \<Rightarrow> string \<Rightarrow> bool" where
  "navigable fs p =
     (dir_exists fs p \<and> absolutePath fs p = p \<and> index_isValid fs p \<and> isDir fs p)"

text \<open>
  What a session over an unchanging file system relies on: a path that
  \<^verbatim>\<open>change_directory\<close> accepts is stored as its \<^verbatim>\<open>absolutePath\<close>, and that
  stored form is accepted again, unchanged, when it is replayed.
\<close>

definition stable :: "file_system \<Rightarrow> bool" where
  "stable fs =
     (\<forall>p. dir_exists fs p \<and> index_isValid fs (absolutePath fs p) \<and> isDir fs (absolutePath fs p)
          \<longrightarrow> navigable fs (absolutePath fs p))"

definition session_inv :: "file_system \<Rightarrow> window \<Rightarrow> bool" where
  "session_inv fs w =
     (history_inv w \<and> buttons_ok w \<and> (\<forall>e \<in> set (history w). navigable fs e) \<and>
      (history w \<noteq> [] \<longrightarrow> rootIndex w = Some (history w ! nat (history_position w))))"

section \<open>The history invariant holds in every session\<close>

lemma no_adjacent_duplicates_iff: "no_adjacent_duplicates xs = distinct_adj xs"
  by (induction xs rule: no_adjacent_duplicates.induct) auto

lemma no_adjacent_duplicates_take:
  "no_adjacent_duplicates xs \<Longrightarrow> no_adjacent_duplicates (take m xs)"
  unfolding no_adjacent_duplicates_iff
  using distinct_adj_appendD1 [of "take m xs" "drop m xs"] by simp

lemma no_adjacent_duplicates_snoc:
  "no_adjacent_duplicates xs \<Longrightarrow> xs = [] \<or> last xs \<noteq> x \<Longrightarrow> no_adjacent_duplicates (xs @ [x])"
  unfolding no_adjacent_duplicates_iff by (auto simp: distinct_adj_append_iff)

lemma py_slice_to_take: "\<exists>m. py_slice_to xs k = take m xs"
  unfolding py_slice_to_def by auto

lemma record_visit_no_duplicates:
  assumes "no_adjacent_duplicates (history w)"
  shows "no_adjacent_duplicates (history (record_visit p w))"
proof -
  define h1 where "h1 = (if history_position w < int (length (history w)) - 1
                then py_slice_to (history w) (history_position w + 1)
                else history w)"
  have "no_adjacent_duplicates h1"
    using assms py_slice_to_take [of "history w" "history_position w + 1"]
    by (auto simp: h1_def no_adjacent_duplicates_take)
  then show ?thesis
    unfolding record_visit_def h1_def [symmetric] Let_def
    by (simp add: no_adjacent_duplicates_snoc)
qed

lemma record_visit_bounds: "position_in_bounds (record_visit p w)"
  unfolding record_visit_def position_in_bounds_def Let_def
  by simp

lemma record_visit_inv: "history_inv w \<Longrightarrow> history_inv (record_visit p w)"
  unfolding history_inv_def
  using record_visit_bounds record_visit_no_duplicates
  by (simp add: position_in_bounds_def)

lemma change_directory_inv:
  "history_inv w \<Longrightarrow> history_inv (change_directory fs p h w)"
  using record_visit_inv [of "w\<lparr>rootIndex := Some (absolutePath fs p), address_bar := absolutePath fs p\<rparr>" "absolutePath fs p"]
  by (simp add: change_directory_def revert_address_bar_def showMessage_def
      update_history_buttons_state_def Let_def history_inv_def position_in_bounds_def)

lemma go_back_inv:
  assumes "history_inv w"
  shows "\<exists>w'. go_back fs w = Returned w' \<and> history_inv w'"
proof (cases "history_position w > 0")
  case False
  then show ?thesis using assms by (simp add: go_back_def)
next
  case True
  define w1 where "w1 = w\<lparr>history_position := history_position w - 1\<rparr>"
  have b: "history w \<noteq> []" "history_position w < int (length (history w))"
    using assms True by (auto simp: history_inv_def position_in_bounds_def split: if_splits)
  have inv1: "history_inv w1"
    using assms True b by (simp add: w1_def history_inv_def position_in_bounds_def)
  have ix: "py_index (history w1) (history_position w1) = Some (history w ! nat (history_position w - 1))"
    using True b by (simp add: w1_def py_index_def Let_def)
  show ?thesis
    using True ix change_directory_inv [OF inv1]
    by (simp add: go_back_def w1_def [symmetric] Let_def)
qed

lemma go_forward_inv:
  assumes "history_inv w"
  shows "\<exists>w'. go_forward fs w = Returned w' \<and> history_inv w'"
proof (cases "history_position w < int (length (history w)) - 1")
  case False
  then show ?thesis using assms by (simp add: go_forward_def)
next
  case True
  define w1 where "w1 = w\<lparr>history_position := history_position w + 1\<rparr>"
  have b: "history w \<noteq> []" "0 \<le> history_position w"
    using assms True by (auto simp: history_inv_def position_in_bounds_def split: if_splits)
  have inv1: "history_inv w1"
    using assms True b by (simp add: w1_def history_inv_def position_in_bounds_def)
  have ix: "py_index (history w1) (history_position w1) = Some (history w ! nat (history_position w + 1))"
    using True b by (simp add: w1_def py_index_def Let_def)
  show ?thesis
    using True ix change_directory_inv [OF inv1]
    by (simp add: go_forward_def w1_def [symmetric] Let_def)
qed

lemma showMessage_inv: "history_inv w \<Longrightarrow> history_inv (showMessage m t w)"
  by (simp add: showMessage_def history_inv_def position_in_bounds_def)

lemma handle_inv:
  assumes "history_inv w"
  shows "\<exists>w'. handle fs i w = Returned w' \<and> history_inv w'"
proof (cases i)
  case (AddressReturn t)
  have "history_inv (w\<lparr>address_bar := t\<rparr>)"
    using assms by (simp add: history_inv_def position_in_bounds_def)
  then show ?thesis
    using AddressReturn by (simp add: on_address_bar_return_pressed_def change_directory_inv)
next
  case (ListDoubleClick p)
  then show ?thesis
    using assms by (simp add: on_list_view_double_clicked_def change_directory_inv)
next
  case (TreeClick p)
  then show ?thesis
    using assms by (simp add: on_tree_view_clicked_def change_directory_inv)
next
  case Up
  then show ?thesis
    using assms
    by (simp add: go_up_def Let_def change_directory_inv showMessage_inv split: option.split)
next
  case Back
  then show ?thesis using go_back_inv [OF assms] by simp
next
  case Forward
  then show ?thesis using go_forward_inv [OF assms] by simp
qed

lemma run_inv:
  "history_inv w \<Longrightarrow> \<exists>w'. run steps w = Returned w' \<and> history_inv w'"
proof (induction steps arbitrary: w)
  case Nil
  then show ?case by simp
next
  case (Cons step steps)
  obtain fs i where step: "step = (fs, i)" by (cases step)
  from handle_inv [OF Cons.prems] obtain w1 where
    h: "handle fs i w = Returned w1" and inv1: "history_inv w1" by blast
  from Cons.IH [OF inv1] show ?case using step h by simp
qed

lemma init_inv: "history_inv (MainWindow_init fs)"
proof -
  have "history_inv fresh_window"
    by (simp add: fresh_window_def history_inv_def position_in_bounds_def)
  then have "history_inv (change_directory fs (homePath fs) False fresh_window)"
    by (rule change_directory_inv)
  then show ?thesis
    by (simp add: MainWindow_init_def update_history_buttons_state_def history_inv_def
        position_in_bounds_def)
qed

section \<open>The session invariant holds over an unchanging file system\<close>

lemma record_visit_fields:
  "rootIndex (record_visit p w) = rootIndex w"
  "address_bar (record_visit p w) = address_bar w"
  "status_bar (record_visit p w) = status_bar w"
  by (simp_all add: record_visit_def Let_def)

lemma record_visit_last:
  "history (record_visit p w) \<noteq> [] \<and> last (history (record_visit p w)) = p \<and>
   history_position (record_visit p w) = int (length (history (record_visit p w))) - 1"
  by (simp add: record_visit_def Let_def)

lemma record_visit_set:
  "set (history (record_visit p w)) \<subseteq> insert p (set (history w))"
proof -
  obtain m where "py_slice_to (history w) (history_position w + 1) = take m (history w)"
    using py_slice_to_take by blast
  then show ?thesis
    using set_take_subset [of m "history w"]
    by (auto simp: record_visit_def Let_def)
qed

lemma buttons_ok_update: "buttons_ok (update_history_buttons_state w)"
  by (simp add: buttons_ok_def update_history_buttons_state_def)

lemma session_inv_fresh_success:
  assumes hinv: "history_inv w" and ents: "\<forall>e \<in> set (history w). navigable fs e"
    and nav: "navigable fs n"
  shows "session_inv fs (update_history_buttons_state
           (record_visit n (w\<lparr>rootIndex := Some n, address_bar := n\<rparr>)))"
proof -
  define w1 where "w1 = w\<lparr>rootIndex := Some n, address_bar := n\<rparr>"
  define w2 where "w2 = record_visit n w1"
  have h1: "history_inv w1"
    using hinv by (simp add: w1_def history_inv_def position_in_bounds_def)
  have h2: "history_inv w2" unfolding w2_def using h1 by (rule record_visit_inv)
  have l: "history w2 \<noteq> []" "last (history w2) = n"
    "history_position w2 = int (length (history w2)) - 1"
    unfolding w2_def using record_visit_last [of n w1] by simp_all
  have s: "set (history w2) \<subseteq> insert n (set (history w))"
    unfolding w2_def using record_visit_set [of n w1] by (simp add: w1_def)
  have r: "rootIndex w2 = Some n"
    unfolding w2_def by (simp add: record_visit_fields w1_def)
  have "nat (history_position w2) = length (history w2) - 1"
    using l by simp
  then have nth: "history w2 ! nat (history_position w2) = n"
    using l by (simp add: last_conv_nth)
  have e: "\<forall>e \<in> set (history w2). navigable fs e"
    using s ents nav by auto
  show ?thesis
    unfolding w1_def [symmetric] w2_def [symmetric]
    using h2 e r nth buttons_ok_update [of w2]
    by (simp add: session_inv_def history_inv_def position_in_bounds_def
        update_history_buttons_state_def buttons_ok_def)
qed

lemma session_inv_change_directory:
  assumes st: "stable fs" and inv: "session_inv fs w"
  shows "session_inv fs (change_directory fs p False w)"
proof (cases "dir_exists fs p \<and> rootIndex w \<noteq> Some (absolutePath fs p) \<and>
    index_isValid fs (absolutePath fs p) \<and> isDir fs (absolutePath fs p)")
  case True
  then have "navigable fs (absolutePath fs p)" using st by (simp add: stable_def)
  have "history_inv w" "\<forall>e \<in> set (history w). navigable fs e"
    using inv by (simp_all add: session_inv_def)
  from session_inv_fresh_success [OF this \<open>navigable fs (absolutePath fs p)\<close>] True show ?thesis
    by (auto simp add: change_directory_def Let_def)
next
  case False
  have u: "session_inv fs (update_history_buttons_state w)"
    using inv by (simp add: session_inv_def history_inv_def position_in_bounds_def
        update_history_buttons_state_def buttons_ok_def)
  have m: "\<And>m t. session_inv fs (revert_address_bar False (showMessage m t w))"
    using inv by (simp add: session_inv_def history_inv_def position_in_bounds_def
        revert_address_bar_def showMessage_def buttons_ok_def)
  show ?thesis
    using False u m by (auto simp add: change_directory_def Let_def)
qed

lemma go_back_explicit:
  assumes inv: "session_inv fs w" and pos: "history_position w > 0"
  shows "go_back fs w = Returned (update_history_buttons_state
           (w\<lparr>history_position := history_position w - 1,
              rootIndex := Some (history w ! nat (history_position w - 1)),
              address_bar := history w ! nat (history_position w - 1)\<rparr>))"
proof -
  define e where "e = history w ! nat (history_position w - 1)"
  have b: "history w \<noteq> []" "history_position w < int (length (history w))"
    using inv pos by (auto simp: session_inv_def history_inv_def position_in_bounds_def split: if_splits)
  have ix: "py_index (history w) (history_position w - 1) = Some e"
    using pos b by (simp add: e_def py_index_def Let_def)
  have "e \<in> set (history w)" using pos b by (simp add: e_def)
  then have n: "navigable fs e" using inv by (simp add: session_inv_def)
  have r: "rootIndex w = Some (history w ! nat (history_position w))"
    using inv b by (simp add: session_inv_def)
  have "distinct_adj (history w)"
    using inv by (simp add: session_inv_def history_inv_def no_adjacent_duplicates_iff)
  from distinct_adj_nth [OF this, of "nat (history_position w - 1)"]
  have ne: "e \<noteq> history w ! nat (history_position w)"
    using pos b by (simp add: e_def Suc_nat_eq_nat_zadd1)
  show ?thesis
    unfolding e_def [symmetric]
    using pos ix n r ne
    by (simp add: go_back_def Let_def change_directory_def navigable_def)
qed

lemma go_forward_explicit:
  assumes inv: "session_inv fs w" and pos: "history_position w < int (length (history w)) - 1"
  shows "go_forward fs w = Returned (update_history_buttons_state
           (w\<lparr>history_position := history_position w + 1,
              rootIndex := Some (history w ! nat (history_position w + 1)),
              address_bar := history w ! nat (history_position w + 1)\<rparr>))"
proof -
  define e where "e = history w ! nat (history_position w + 1)"
  have b: "history w \<noteq> []" "0 \<le> history_position w"
    using inv pos by (auto simp: session_inv_def history_inv_def position_in_bounds_def split: if_splits)
  have ix: "py_index (history w) (history_position w + 1) = Some e"
    using pos b by (simp add: e_def py_index_def Let_def)
  have "e \<in> set (history w)" using pos b by (simp add: e_def)
  then have n: "navigable fs e" using inv by (simp add: session_inv_def)
  have r: "rootIndex w = Some (history w ! nat (history_position w))"
    using inv b by (simp add: session_inv_def)
  have da: "distinct_adj (history w)"
    using inv by (simp add: session_inv_def history_inv_def no_adjacent_duplicates_iff)
  have lt: "Suc (nat (history_position w)) < length (history w)"
    using pos b by linarith
  have eq: "nat (history_position w + 1) = Suc (nat (history_position w))"
    using b by linarith
  have ne: "e \<noteq> history w ! nat (history_position w)"
    unfolding e_def eq using distinct_adj_nth [OF da lt] by simp
  show ?thesis
    unfolding e_def [symmetric]
    using pos ix n r ne
    by (simp add: go_forward_def Let_def change_directory_def navigable_def)
qed

lemma session_inv_replayed:
  assumes inv: "session_inv fs w"
    and k: "0 \<le> k" "k < int (length (history w))"
  shows "session_inv fs (update_history_buttons_state
           (w\<lparr>history_position := k,
              rootIndex := Some (history w ! nat k),
              address_bar := history w ! nat k\<rparr>))"
  using inv k
  by (auto simp add: session_inv_def history_inv_def position_in_bounds_def
        update_history_buttons_state_def buttons_ok_def)

lemma session_inv_go_back:
  assumes inv: "session_inv fs w"
  shows "\<exists>w'. go_back fs w = Returned w' \<and> session_inv fs w'"
proof (cases "history_position w > 0")
  case False
  then show ?thesis using inv by (simp add: go_back_def)
next
  case True
  have b: "history_position w < int (length (history w))"
    using inv True by (auto simp: session_inv_def history_inv_def position_in_bounds_def split: if_splits)
  show ?thesis
    using go_back_explicit [OF inv True]
      session_inv_replayed [OF inv, of "history_position w - 1"] True b
    by simp
qed

lemma session_inv_go_forward:
  assumes inv: "session_inv fs w"
  shows "\<exists>w'. go_forward fs w = Returned w' \<and> session_inv fs w'"
proof (cases "history_position w < int (length (history w)) - 1")
  case False
  then show ?thesis using inv by (simp add: go_forward_def)
next
  case True
  have b: "0 \<le> history_position w"
    using inv True by (auto simp: session_inv_def history_inv_def position_in_bounds_def split: if_splits)
  show ?thesis
    using go_forward_explicit [OF inv True]
      session_inv_replayed [OF inv, of "history_position w + 1"] True b
    by simp
qed

lemma session_inv_handle:
  assumes st: "stable fs" and inv: "session_inv fs w"
  shows "\<exists>w'. handle fs i w = Returned w' \<and> session_inv fs w'"
proof (cases i)
  case (AddressReturn t)
  have "session_inv fs (w\<lparr>address_bar := t\<rparr>)"
    using inv by (simp add: session_inv_def history_inv_def position_in_bounds_def buttons_ok_def)
  from session_inv_change_directory [OF st this] show ?thesis
    using AddressReturn by (simp add: on_address_bar_return_pressed_def)
next
  case (ListDoubleClick p)
  then show ?thesis
    using inv session_inv_change_directory [OF st inv]
    by (simp add: on_list_view_double_clicked_def)
next
  case (TreeClick p)
  then show ?thesis
    using inv session_inv_change_directory [OF st inv]
    by (simp add: on_tree_view_clicked_def)
next
  case Up
  have "\<And>m t. session_inv fs (showMessage m t w)"
    using inv by (simp add: session_inv_def history_inv_def position_in_bounds_def
        showMessage_def buttons_ok_def)
  then show ?thesis
    using Up session_inv_change_directory [OF st inv]
    by (simp add: go_up_def Let_def split: option.split)
next
  case Back
  then show ?thesis using session_inv_go_back [OF inv] by simp
next
  case Forward
  then show ?thesis using session_inv_go_forward [OF inv] by simp
qed

lemma session_inv_run:
  "stable fs \<Longrightarrow> session_inv fs w \<Longrightarrow>
   \<exists>w'. run (map (Pair fs) intents) w = Returned w' \<and> session_inv fs w'"
proof (induction intents arbitrary: w)
  case Nil
  then show ?case by simp
next
  case (Cons i intents)
  from session_inv_handle [OF Cons.prems] obtain w1 where
    h: "handle fs i w = Returned w1" and inv1: "session_inv fs w1" by blast
  from Cons.IH [OF Cons.prems(1) inv1] show ?case using h by simp
qed

lemma session_inv_init:
  assumes "stable fs"
  shows "session_inv fs (MainWindow_init fs)"
proof (cases "dir_exists fs (homePath fs) \<and>
    index_isValid fs (absolutePath fs (homePath fs)) \<and> isDir fs (absolutePath fs (homePath fs))")
  case True
  then have n: "navigable fs (absolutePath fs (homePath fs))"
    using assms by (simp add: stable_def)
  have "history_inv fresh_window" "\<forall>e \<in> set (history fresh_window). navigable fs e"
    by (simp_all add: fresh_window_def history_inv_def position_in_bounds_def)
  from session_inv_fresh_success [OF this n]
  have "session_inv fs (change_directory fs (homePath fs) False fresh_window)"
    using True by (simp add: change_directory_def Let_def fresh_window_def)
  then show ?thesis
    by (simp add: MainWindow_init_def update_history_buttons_state_def session_inv_def
        history_inv_def position_in_bounds_def buttons_ok_def)
next
  case False
  then show ?thesis
    by (auto simp add: MainWindow_init_def change_directory_def Let_def fresh_window_def
        revert_address_bar_def showMessage_def update_history_buttons_state_def
        session_inv_def history_inv_def position_in_bounds_def buttons_ok_def)
qed

section \<open>Evaluating the examples\<close>

lemmas navigation_defs =
  example_fs_def example_fs_home_removed_def example_fs_docs_removed_def qt_fs_def dirname_def
  MainWindow_init_def fresh_window_def change_directory_def update_history_buttons_state_def
  revert_address_bar_def showMessage_def record_visit_def py_slice_to_def py_index_def
  go_back_def go_forward_def go_up_def on_address_bar_return_pressed_def
  on_list_view_double_clicked_def on_tree_view_clicked_def Let_def


lemma example_session_run:
  "run example_session (MainWindow_init example_fs) = Returned example_window"
  by (simp add: example_session_def example_intents_def example_window_def navigation_defs)

lemma failing_session_run:
  "run (map (Pair example_fs) failing_intents) (MainWindow_init example_fs) =
     Returned \<lparr>history = [''/home/u'', ''/etc''], history_position = 0,
       rootIndex = Some ''/home/u'', address_bar = ''/home/u'',
       back_enabled = False, forward_enabled = True,
       status_bar = Some (''Path does not exist: /home/u/notes.txt'', 5000)\<rparr>"
  by (simp add: failing_intents_def navigation_defs)



section \<open>Fresh navigation\<close>

text \<open>
  C4, idempotence of revisit. For every state and every path \<open>p\<close> whose canonical form
  (\<^verbatim>\<open>absolutePath\<close>) is the directory the list view shows, a fresh
  \<^verbatim>\<open>change_directory\<close> to \<open>p\<close> leaves the entries, the position and the current
  directory as they were.
\<close>

theorem revisit_idempotent:
  assumes "rootIndex w = Some (absolutePath fs p)"
  shows "history (change_directory fs p False w) = history w \<and>
         history_position (change_directory fs p False w) = history_position w \<and>
         rootIndex (change_directory fs p False w) = rootIndex w"
  using assms
  by (simp add: change_directory_def revert_address_bar_def showMessage_def
      update_history_buttons_state_def Let_def)

theorem revisit_idempotent_witness:
  "rootIndex example_window = Some (absolutePath example_fs ''/etc'') \<and>
   history (change_directory example_fs ''/etc'' False example_window) =
     [''/home/u'', ''/home/u/docs'', ''/etc''] \<and>
   history_position (change_directory example_fs ''/etc'' False example_window) = 2 \<and>
   rootIndex (change_directory example_fs ''/etc'' False example_window) = Some ''/etc''"
proof -
  have h: "rootIndex example_window = Some (absolutePath example_fs ''/etc'')"
    by (simp add: example_window_def example_fs_def qt_fs_def)
  from revisit_idempotent [OF h] h show ?thesis
    by (simp add: example_window_def)
qed

text \<open>
  C6, atomicity on not-found. For every state and every path that does not exist
  (\<^verbatim>\<open>QDir(p).exists()\<close> is false), a fresh \<^verbatim>\<open>change_directory\<close> shows the message
  \<^verbatim>\<open>Path does not exist\<close>, sets the address bar back to the directory shown, and
  changes nothing else: entries, position, current directory and buttons stay.
\<close>

theorem not_found_atomic:
  assumes "\<not> dir_exists fs p"
  shows "change_directory fs p False w =
           w\<lparr>status_bar := Some (''Path does not exist: '' @ p, 5000),
             address_bar := filePath (rootIndex w)\<rparr>"
  using assms by (simp add: change_directory_def revert_address_bar_def showMessage_def)

theorem not_found_atomic_witness:
  "\<not> dir_exists example_fs ''/no/such/path'' \<and>
   change_directory example_fs ''/no/such/path'' False example_window =
     \<lparr>history = [''/home/u'', ''/home/u/docs'', ''/etc''], history_position = 2,
      rootIndex = Some ''/etc'', address_bar = ''/etc'',
      back_enabled = True, forward_enabled = False,
      status_bar = Some (''Path does not exist: /no/such/path'', 5000)\<rparr>"
proof -
  have h: "\<not> dir_exists example_fs ''/no/such/path''"
    by (simp add: example_fs_def qt_fs_def)
  from not_found_atomic [OF h, of example_window] h show ?thesis
    by (simp add: example_window_def)
qed

text \<open>
  C3, a typed path that exists but is not a directory. The branch that shows
  \<^verbatim>\<open>Not a directory\<close> comes after the test \<^verbatim>\<open>QDir(path).exists()\<close>, and Qt
  answers false there for a regular file (\<^verbatim>\<open>QDir::exists()\<close>: "If a file with the
  same name is found this function will return false"). So the regular file
  \<^verbatim>\<open>/home/u/notes.txt\<close>, which has a valid model index and is not a directory, is
  reported with the message of a missing path.
\<close>

theorem file_path_reported_as_missing:
  "index_isValid example_fs ''/home/u/notes.txt'' \<and> \<not> isDir example_fs ''/home/u/notes.txt'' \<and>
   status_bar typed_file = Some (''Path does not exist: /home/u/notes.txt'', 5000) \<and>
   status_bar typed_file \<noteq> Some (''Not a directory: /home/u/notes.txt'', 3000)"
  by (simp add: typed_file_def navigation_defs)

text \<open>
  C10, clicks on entries that are not directories. When \<^verbatim>\<open>fs_model.isDir(index)\<close> is
  false, the double-click handler of the list and the click handler of the tree return
  the state they were given: history, position, current directory, address bar, buttons
  and status bar are all unchanged. The same path typed into the address bar does get a
  message when \<^verbatim>\<open>QDir\<close> finds no directory there.
\<close>

theorem non_directory_click_noop:
  assumes "\<not> isDir fs i"
  shows "on_list_view_double_clicked fs i w = w \<and> on_tree_view_clicked fs i w = w \<and>
         (\<not> dir_exists fs i \<longrightarrow>
            status_bar (on_address_bar_return_pressed fs (w\<lparr>address_bar := i\<rparr>)) =
              Some (''Path does not exist: '' @ i, 5000))"
  using assms
  by (simp add: on_list_view_double_clicked_def on_tree_view_clicked_def
      on_address_bar_return_pressed_def change_directory_def revert_address_bar_def
      showMessage_def)

theorem non_directory_click_noop_witness:
  "\<not> isDir example_fs ''/home/u/notes.txt'' \<and> \<not> dir_exists example_fs ''/home/u/notes.txt'' \<and>
   on_list_view_double_clicked example_fs ''/home/u/notes.txt'' example_window = example_window \<and>
   on_tree_view_clicked example_fs ''/home/u/notes.txt'' example_window = example_window \<and>
   status_bar (on_address_bar_return_pressed example_fs
       (example_window\<lparr>address_bar := ''/home/u/notes.txt''\<rparr>)) =
     Some (''Path does not exist: /home/u/notes.txt'', 5000)"
proof -
  have h: "\<not> isDir example_fs ''/home/u/notes.txt''"
    and d: "\<not> dir_exists example_fs ''/home/u/notes.txt''"
    by (simp_all add: example_fs_def qt_fs_def)
  from non_directory_click_noop [OF h, of example_window] h d show ?thesis
    by simp
qed

section \<open>Back and forward\<close>

lemma change_directory_replay_history:
  "history (change_directory fs p True w) = history w"
  by (simp add: change_directory_def revert_address_bar_def showMessage_def
      update_history_buttons_state_def Let_def)

text \<open>
  C5, replay never changes the stored paths. For every state and every file system,
  \<^verbatim>\<open>go_back\<close> and \<^verbatim>\<open>go_forward\<close> leave the history list as it was, whether they
  return or raise; only the position may move.
\<close>

theorem replay_keeps_entries:
  "history (state_of (go_back fs w)) = history w \<and>
   history (state_of (go_forward fs w)) = history w"
  by (simp add: go_back_def go_forward_def Let_def change_directory_replay_history
      split: option.split)

theorem replay_keeps_entries_witness:
  "history (state_of (go_back example_fs example_window)) =
     [''/home/u'', ''/home/u/docs'', ''/etc''] \<and>
   history (state_of (go_forward example_fs example_window)) =
     [''/home/u'', ''/home/u/docs'', ''/etc'']"
  using replay_keeps_entries [of example_fs example_window]
  by (simp add: example_window_def)

lemma three_visits_reachable:
  "run [(example_fs, AddressReturn ''/etc''), (example_fs, AddressReturn ''/'')]
     (MainWindow_init example_fs) = Returned three_visits"
  by (simp add: three_visits_def navigation_defs)

text \<open>
  Three visits leave the history \<^verbatim>\<open>[/home/u, /etc, /]\<close> at position 2. With
  \<^verbatim>\<open>/home/u\<close> removed since, two steps back bring the position to 0 while the list
  view stays on \<^verbatim>\<open>/etc\<close>, the last directory a replay could show. A fresh visit to
  \<^verbatim>\<open>/etc\<close>, a directory other than \<^verbatim>\<open>/home/u\<close>, is then a visit to the
  directory shown: the three entries stay and the position stays 0.
\<close>

theorem branch_kept_after_failed_back:
  "history three_visits = [''/home/u'', ''/etc'', ''/''] \<and> history_position three_visits = 2 \<and>
   navigable example_fs_home_removed ''/etc'' \<and> ''/etc'' \<noteq> ''/home/u'' \<and>
   history after_two_backs = [''/home/u'', ''/etc'', ''/''] \<and>
   history_position after_two_backs = 0 \<and> rootIndex after_two_backs = Some ''/etc'' \<and>
   history (change_directory example_fs_home_removed ''/etc'' False after_two_backs) =
     [''/home/u'', ''/etc'', ''/''] \<and>
   history_position (change_directory example_fs_home_removed ''/etc'' False after_two_backs) = 0"
  by (simp add: after_two_backs_def three_visits_def navigable_def navigation_defs)

text \<open>
  C1, branch truncation, as it holds. From a history \<open>[A, B, C]\<close> at position 2, two
  calls of \<^verbatim>\<open>go_back\<close> return with the entries unchanged and the position 0. If the
  list view does not show \<open>D\<close> at that point, a fresh \<^verbatim>\<open>change_directory\<close> to a
  directory \<open>D\<close> other than \<open>A\<close> leaves the entries \<open>[A, D]\<close> and the position 1:
  \<open>B\<close> and \<open>C\<close> are gone. The view shows \<open>A\<close>, and so not \<open>D\<close>, whenever \<open>A\<close>
  is still a directory. Paths are in the canonical form in which the history holds them.
\<close>

theorem branch_truncation:
  assumes "history w = [A, B, C]" and "history_position w = 2"
    and "navigable fs D" and "D \<noteq> A"
  shows "\<exists>w1 w2. go_back fs w = Returned w1 \<and> go_back fs w1 = Returned w2 \<and>
           history w2 = [A, B, C] \<and> history_position w2 = 0 \<and>
           (navigable fs A \<longrightarrow> rootIndex w2 = Some A) \<and>
           (rootIndex w2 \<noteq> Some D \<longrightarrow>
              history (change_directory fs D False w2) = [A, D] \<and>
              history_position (change_directory fs D False w2) = 1)"
proof -
  define w1 where "w1 = change_directory fs B True (w\<lparr>history_position := 1\<rparr>)"
  define w2 where "w2 = change_directory fs A True (w1\<lparr>history_position := 0\<rparr>)"
  have f1: "history w1 = [A, B, C]" "history_position w1 = 1"
    using assms(1)
    by (simp_all add: w1_def change_directory_def revert_address_bar_def showMessage_def
        update_history_buttons_state_def Let_def)
  have g1: "go_back fs w = Returned w1"
    using assms(1,2) by (simp add: go_back_def py_index_def Let_def w1_def)
  have g2: "go_back fs w1 = Returned w2"
    using f1 by (simp add: go_back_def py_index_def Let_def w2_def)
  have f2: "history w2 = [A, B, C]" "history_position w2 = 0"
    using f1
    by (simp_all add: w2_def change_directory_def revert_address_bar_def showMessage_def
        update_history_buttons_state_def Let_def)
  have shown: "rootIndex w2 = Some A" if "navigable fs A"
    using that
    by (auto simp add: w2_def change_directory_def navigable_def
        update_history_buttons_state_def Let_def)
  have visit: "history (change_directory fs D False w2) = [A, D] \<and>
        history_position (change_directory fs D False w2) = 1"
    if "rootIndex w2 \<noteq> Some D"
    using that f2 assms(3,4)
    by (auto simp add: change_directory_def navigable_def record_visit_def py_slice_to_def
        update_history_buttons_state_def Let_def)
  from g1 g2 f2 shown visit show ?thesis by simp
qed

theorem branch_truncation_witness:
  "history example_window = [''/home/u'', ''/home/u/docs'', ''/etc''] \<and>
   history_position example_window = 2 \<and>
   navigable example_fs ''/'' \<and> ''/'' \<noteq> ''/home/u'' \<and> navigable example_fs ''/home/u'' \<and>
   (\<exists>w1 w2. go_back example_fs example_window = Returned w1 \<and>
      go_back example_fs w1 = Returned w2 \<and>
      history w2 = [''/home/u'', ''/home/u/docs'', ''/etc''] \<and> history_position w2 = 0 \<and>
      rootIndex w2 = Some ''/home/u'' \<and> rootIndex w2 \<noteq> Some ''/'' \<and>
      history (change_directory example_fs ''/'' False w2) = [''/home/u'', ''/''] \<and>
      history_position (change_directory example_fs ''/'' False w2) = 1)"
proof -
  have h: "history example_window = [''/home/u'', ''/home/u/docs'', ''/etc'']"
    "history_position example_window = 2"
    by (simp_all add: example_window_def)
  have n: "navigable example_fs ''/''" "navigable example_fs ''/home/u''"
    by (simp_all add: navigable_def example_fs_def qt_fs_def)
  have d: "''/'' \<noteq> ''/home/u''" by simp
  from branch_truncation [OF h n(1) d] h n show ?thesis by auto
qed

section \<open>Properties of every session\<close>

text \<open>
  C7, no consecutive duplicates. Every sequence of navigation intents, each handled
  against any file system, runs from the initial state without an exception and ends in
  a state whose history has no two adjacent entries equal.
\<close>

theorem no_consecutive_duplicates:
  "\<exists>w. run steps (MainWindow_init fs) = Returned w \<and> no_adjacent_duplicates (history w)"
  using run_inv [OF init_inv] by (auto simp: history_inv_def)

theorem no_consecutive_duplicates_witness:
  "run example_session (MainWindow_init example_fs) = Returned example_window \<and>
   no_adjacent_duplicates (history example_window)"
  using no_consecutive_duplicates [of example_session example_fs] example_session_run
  by (simp add: example_window_def)

text \<open>
  C8, position bounds. Every sequence of navigation intents, each handled against any
  file system, runs from the initial state without an exception and ends in a state
  where the position is a valid index whenever the history is non-empty, and is \<open>-1\<close>
  exactly when the history is empty.
\<close>

theorem position_bounds:
  "\<exists>w. run steps (MainWindow_init fs) = Returned w \<and>
     (history w \<noteq> [] \<longrightarrow>
        0 \<le> history_position w \<and> history_position w < int (length (history w))) \<and>
     (history_position w = - 1 \<longleftrightarrow> history w = [])"
proof -
  from run_inv [OF init_inv] obtain w where
    "run steps (MainWindow_init fs) = Returned w" "history_inv w" by blast
  then show ?thesis
    by (auto simp: history_inv_def position_in_bounds_def split: if_splits)
qed

theorem position_bounds_witness:
  "run example_session (MainWindow_init example_fs) = Returned example_window \<and>
   history example_window \<noteq> [] \<and>
   0 \<le> history_position example_window \<and>
   history_position example_window < int (length (history example_window)) \<and>
   history_position example_window \<noteq> - 1"
  using position_bounds [of example_session example_fs] example_session_run
  by (simp add: example_window_def)

section \<open>Properties that need the replayed directories to be there\<close>

text \<open>
  Where the buttons are refreshed. A fresh \<^verbatim>\<open>change_directory\<close> keeps the buttons
  in step with the position whatever the file system answers, and a replay that reaches
  the directory change refreshes them. So in a session over a file system that does not
  change, where no replay fails, they are in step after every transition.
\<close>

lemma fresh_navigation_keeps_buttons:
  "buttons_ok w \<Longrightarrow> buttons_ok (change_directory fs p False w)"
  by (auto simp add: change_directory_def revert_address_bar_def showMessage_def Let_def
      record_visit_def buttons_ok_def update_history_buttons_state_def)

lemma successful_replay_refreshes_buttons:
  assumes "dir_exists fs p" and "rootIndex w \<noteq> Some (absolutePath fs p)"
    and "index_isValid fs (absolutePath fs p)" and "isDir fs (absolutePath fs p)"
  shows "buttons_ok (change_directory fs p True w)"
  using assms
  by (auto simp add: change_directory_def Let_def buttons_ok_def
      update_history_buttons_state_def)

lemma enablement_in_stable_session:
  assumes "stable fs"
  shows "\<exists>w. run (map (Pair fs) intents) (MainWindow_init fs) = Returned w \<and>
           back_enabled w = (history_position w > 0) \<and>
           forward_enabled w = (history_position w < int (length (history w)) - 1)"
  using session_inv_run [OF assms session_inv_init [OF assms]]
  by (auto simp: session_inv_def buttons_ok_def)

text \<open>
  C2, enablement after every transition. \<^verbatim>\<open>go_back\<close> moves the position before
  \<^verbatim>\<open>change_directory\<close> looks at the target, and the return for a path that does not
  exist does not refresh the buttons. From the home directory, a visit to
  \<^verbatim>\<open>/etc\<close> and then, with \<^verbatim>\<open>/home/u\<close> removed, a step back: the position is 0,
  the list view still shows \<^verbatim>\<open>/etc\<close>, Back is still enabled and Forward still
  disabled, so neither button says what the position says.
\<close>

theorem failed_back_leaves_buttons_stale:
  "history after_failed_back = [''/home/u'', ''/etc''] \<and>
   history_position after_failed_back = 0 \<and> rootIndex after_failed_back = Some ''/etc'' \<and>
   back_enabled after_failed_back \<and> \<not> forward_enabled after_failed_back \<and>
   \<not> buttons_ok after_failed_back"
  by (simp add: after_failed_back_def buttons_ok_def navigation_defs)




end
